theory Spec2Isabelle
  imports Main
begin

section \<open>Strings: trim, toLowerCase and the email pattern\<close>

text \<open>
  A JavaScript string is a sequence of UTF-16 code units. The model keeps the code units
  below 256, one \<^typ>\<open>char\<close> each, read as Latin-1. On them \<^verbatim>\<open>String.prototype.trim\<close>
  strips TAB, LF, VT, FF, CR, SPACE and NBSP from both ends, and
  \<^verbatim>\<open>String.prototype.toLowerCase\<close> adds 32 to \<^verbatim>\<open>A-Z\<close> and to the upper-case letters
  \<^verbatim>\<open>U+00C0-U+00DE\<close> (the multiplication sign \<^verbatim>\<open>U+00D7\<close> apart), one code unit for one.
\<close>

definition isWhiteSpace :: "char \<Rightarrow> bool" where
  "isWhiteSpace c =
     (c \<in> {CHR 0x09, CHR 0x0A, CHR 0x0B, CHR 0x0C, CHR 0x0D, CHR 0x20, CHR 0xA0})"

definition trim :: "string \<Rightarrow> string" where
  "trim s = rev (dropWhile isWhiteSpace (rev (dropWhile isWhiteSpace s)))"

definition toLowerChar :: "char \<Rightarrow> char" where
  "toLowerChar c =
     (let n = of_char c :: nat in
      if (65 \<le> n \<and> n \<le> 90) \<or> (192 \<le> n \<and> n \<le> 222 \<and> n \<noteq> 215)
      then char_of (n + 32) else c)"

definition toLowerCase :: "string \<Rightarrow> string" where
  "toLowerCase s = map toLowerChar s"

text \<open>
  The regular expression \<^verbatim>\<open>/^[^@]+@[^@]+\.[^@]+$/\<close> is a sequence of five pieces between
  the anchors: a piece is one atom or one-or-more of it (\<^verbatim>\<open>+\<close>), an atom is a literal
  character or a negated one-character class. \<open>matches\<close> is the backtracking matcher of the
  whole input (\<^verbatim>\<open>^\<close> at its start, \<^verbatim>\<open>$\<close> at its end, no flags, so \<^verbatim>\<open>[^@]\<close> also
  takes line terminators).
\<close>

datatype atom = Lit char | NotLit char

datatype piece = One atom | Plus atom

fun atom_ok :: "atom \<Rightarrow> char \<Rightarrow> bool" where
  "atom_ok (Lit a) c = (c = a)"
| "atom_ok (NotLit a) c = (c \<noteq> a)"

fun matches :: "piece list \<Rightarrow> string \<Rightarrow> bool" where
  "matches [] s = (s = [])"
| "matches (One a # ps) [] = False"
| "matches (One a # ps) (c # s) = (atom_ok a c \<and> matches ps s)"
| "matches (Plus a # ps) [] = False"
| "matches (Plus a # ps) (c # s) =
     (atom_ok a c \<and> (matches (Plus a # ps) s \<or> matches ps s))"

definition EMAIL_RE :: "piece list" where
  "EMAIL_RE =
     [Plus (NotLit CHR ''@''), One (Lit CHR ''@''), Plus (NotLit CHR ''@''),
      One (Lit CHR ''.''), Plus (NotLit CHR ''@'')]"

text \<open>
  The pattern in the specification's words: one or more non-@ characters, an @, one or
  more non-@ characters, a dot, one or more non-@ characters.
\<close>

definition email_shape :: "string \<Rightarrow> bool" where
  "email_shape s =
     (\<exists>a b c. s = a @ ''@'' @ b @ ''.'' @ c \<and> a \<noteq> [] \<and> b \<noteq> [] \<and> c \<noteq> [] \<and>
        CHR ''@'' \<notin> set a \<and> CHR ''@'' \<notin> set b \<and> CHR ''@'' \<notin> set c)"


section \<open>Data model\<close>

text \<open>
  \<^verbatim>\<open>RegisterInput = { email; name? }\<close>,
  \<^verbatim>\<open>RegisterOutput = { id; email; name?; verified }\<close>; a row of table \<^verbatim>\<open>users\<close> adds
  \<^verbatim>\<open>created_at\<close> (a timestamp in microseconds), the HTTP response adds \<^verbatim>\<open>status\<close>. The field
  \<^verbatim>\<open>id\<close> is written \<open>id'\<close>.
\<close>

record RegisterInput =
  email :: string
  name :: "string option"

record RegisterOutput = RegisterInput +
  id' :: string
  verified :: bool

record users_row = RegisterOutput +
  created_at :: int

datatype HttpStatus = Created

record RegisterResponse = RegisterOutput +
  status :: HttpStatus

record SignupEvent =
  userID :: string
  event_email :: string

text \<open>
  A thrown value: \<^verbatim>\<open>new Error(tag)\<close> of the use case, or a rejection by the database:
  an INSERT that breaks a unique constraint (named by the constraint), a text parameter
  holding the code unit 0 (\<^verbatim>\<open>invalid byte sequence for encoding "UTF8": 0x00\<close>), a key too
  large for an entry of a btree index (named by the index), an interval or a timestamp
  out of range (named by the type).
\<close>

datatype error =
    Error string
  | SqlUniqueViolation string
  | SqlInvalidByteSequence
  | SqlIndexRowTooLarge string
  | SqlOutOfRange string


section \<open>Ports\<close>

text \<open>
  A port method runs in a world \<open>'w\<close> and leaves a world. A method returning a Promise may
  reject (\<open>Inl\<close>); \<^verbatim>\<open>newId\<close> is synchronous and returns a string.
\<close>

type_synonym ('a, 'w) promise = "'w \<Rightarrow> (error + 'a) \<times> 'w"

record 'w UserRepo =
  create :: "RegisterOutput \<Rightarrow> (unit, 'w) promise"
  findByEmail :: "string \<Rightarrow> (RegisterOutput option, 'w) promise"
  disableUnverifiedOlderThan :: "int \<Rightarrow> (int, 'w) promise"

record 'w IdGen =
  newId :: "'w \<Rightarrow> string \<times> 'w"

record 'w EmailSender =
  sendWelcome :: "string \<Rightarrow> string option \<Rightarrow> (unit, 'w) promise"

record 'w deps =
  repo :: "'w UserRepo"
  id_gen :: "'w IdGen"
  mail :: "'w EmailSender"

record 'w Topic =
  publish :: "SignupEvent \<Rightarrow> (unit, 'w) promise"


section \<open>The use case RegisterUser\<close>

definition exec :: "'w deps \<Rightarrow> RegisterInput \<Rightarrow> (RegisterOutput, 'w) promise" where
  "exec d input w =
     (let e = toLowerCase (trim (email input)) in
      if \<not> matches EMAIL_RE e then (Inl (Error ''INVALID_EMAIL''), w)
      else
        case findByEmail (repo d) e w of
          (Inl err, w1) \<Rightarrow> (Inl err, w1)
        | (Inr (Some existing), w1) \<Rightarrow> (Inl (Error ''EMAIL_TAKEN''), w1)
        | (Inr None, w1) \<Rightarrow>
            (case newId (id_gen d) w1 of
               (i, w2) \<Rightarrow>
                 (let user = \<lparr>email = e, name = name input, id' = i, verified = False\<rparr> in
                  case create (repo d) user w2 of
                    (Inl err, w3) \<Rightarrow> (Inl err, w3)
                  | (Inr _, w3) \<Rightarrow>
                      (case sendWelcome (mail d) e (name input) w3 of
                         (Inl err, w4) \<Rightarrow> (Inl err, w4)
                       | (Inr _, w4) \<Rightarrow> (Inr user, w4)))))"


section \<open>Adapters and delivery\<close>

text \<open>
  The world of the deployed service: table \<^verbatim>\<open>users\<close> in insertion order, the database
  clock \<^verbatim>\<open>NOW()\<close>, the number of identifiers handed out, the lines written by
  \<^verbatim>\<open>console.log\<close>, and the messages of topic \<^verbatim>\<open>user-signups\<close>.
\<close>

record world =
  users :: "users_row list"
  clock :: int
  ids_issued :: nat
  console :: "(string \<times> string option) list"
  signups_topic :: "SignupEvent list"

text \<open>
  What PostgreSQL refuses in a text value. A text parameter must not hold the code unit
  0. A key of a btree index is stored in at most 2692 bytes of UTF-8 (an entry of 2704
  bytes, less its header and the length word); a code unit below 128 takes one byte, the
  others of the model two. The database first tries to compress a longer key and takes it
  if the compressed form fits; the model refuses every longer key.
\<close>

definition has_nul :: "string \<Rightarrow> bool" where
  "has_nul s = (CHR 0x00 \<in> set s)"

definition utf8_length :: "string \<Rightarrow> nat" where
  "utf8_length s = sum_list (map (\<lambda>c. if (of_char c :: nat) < 128 then 1 else 2) s)"

definition fits_btree :: "string \<Rightarrow> bool" where
  "fits_btree s = (utf8_length s \<le> 2692)"

text \<open>
  \<^verbatim>\<open>INSERT INTO users (id, email, name, verified)\<close>: the parameters are read first; then
  the row goes into the index of the primary key \<^verbatim>\<open>id\<close> and into the index of the UNIQUE
  column \<^verbatim>\<open>email\<close>, in this order; \<^verbatim>\<open>created_at\<close> defaults to \<^verbatim>\<open>NOW()\<close>. A rejected
  INSERT leaves the table as it was.
\<close>

definition insert_user :: "RegisterOutput \<Rightarrow> (unit, world) promise" where
  "insert_user u w =
     (if has_nul (id' u) \<or> has_nul (email u) \<or>
         (case name u of None \<Rightarrow> False | Some n \<Rightarrow> has_nul n)
        then (Inl SqlInvalidByteSequence, w)
      else if \<exists>r \<in> set (users w). id' r = id' u
        then (Inl (SqlUniqueViolation ''users_pkey''), w)
      else if \<not> fits_btree (id' u)
        then (Inl (SqlIndexRowTooLarge ''users_pkey''), w)
      else if \<exists>r \<in> set (users w). email r = email u
        then (Inl (SqlUniqueViolation ''users_email_key''), w)
      else if \<not> fits_btree (email u)
        then (Inl (SqlIndexRowTooLarge ''users_email_key''), w)
      else (Inr (),
            w\<lparr>users := users w @
                 [\<lparr>email = email u, name = name u, id' = id' u, verified = verified u,
                   created_at = clock w\<rparr>]\<rparr>))"

text \<open>\<^verbatim>\<open>SELECT id, email, name, verified FROM users WHERE email = $1\<close>, first row or null.\<close>

definition select_by_email :: "string \<Rightarrow> (RegisterOutput option, world) promise" where
  "select_by_email e w =
     (if has_nul e then (Inl SqlInvalidByteSequence, w)
      else
        (Inr (case find (\<lambda>r. email r = e) (users w) of
                None \<Rightarrow> None
              | Some row \<Rightarrow>
                  Some \<lparr>email = email row, name = name row, id' = id' row,
                        verified = verified row\<rparr>),
         w))"

text \<open>
  \<^verbatim>\<open>UPDATE users SET verified = FALSE WHERE verified = FALSE AND created_at < NOW() - ($1 || ' hours')::interval\<close>.
  The hours are a whole number; an hour is 3600000000 microseconds. A timestamp counts
  the microseconds since 2000-01-01 00:00 UTC and lies between \<^verbatim>\<open>MIN_TIMESTAMP\<close>
  (4713 BC) and \<^verbatim>\<open>END_TIMESTAMP\<close> (294277 AD, excluded); an interval holds its hours as
  microseconds in 64 bits (as PostgreSQL 15 and later read \<^verbatim>\<open>'n hours'\<close>). The right-hand
  side of the comparison is computed once, before any row is read, and the statement is
  rejected when the interval or the difference is out of range.
\<close>

definition MIN_TIMESTAMP :: int where
  "MIN_TIMESTAMP = - 211813488000000000"

definition END_TIMESTAMP :: int where
  "END_TIMESTAMP = 9223371331200000000"

definition timestamp_ok :: "int \<Rightarrow> bool" where
  "timestamp_ok t = (MIN_TIMESTAMP \<le> t \<and> t < END_TIMESTAMP)"

definition interval_ok :: "int \<Rightarrow> bool" where
  "interval_ok hours =
     (- 9223372036854775808 \<le> hours * 3600000000 \<and>
      hours * 3600000000 \<le> 9223372036854775807)"

definition sweep_threshold :: "int \<Rightarrow> int \<Rightarrow> error + int" where
  "sweep_threshold now hours =
     (if \<not> interval_ok hours then Inl (SqlOutOfRange ''interval'')
      else if \<not> timestamp_ok (now - hours * 3600000000)
        then Inl (SqlOutOfRange ''timestamp'')
      else Inr (now - hours * 3600000000))"

definition sweep_where :: "int \<Rightarrow> int \<Rightarrow> users_row \<Rightarrow> bool" where
  "sweep_where now hours r =
     (verified r = False \<and> created_at r < now - hours * 3600000000)"

text \<open>
  An UPDATE goes through the table once: a row that the WHERE clause selects is written
  anew with the SET clause applied, the others stay. It yields the table and the rows it
  has written, in their new form (what \<^verbatim>\<open>RETURNING *\<close> would show, and whose number the
  database reports).
\<close>

fun sql_update :: "('r \<Rightarrow> bool) \<Rightarrow> ('r \<Rightarrow> 'r) \<Rightarrow> 'r list \<Rightarrow> 'r list \<times> 'r list" where
  "sql_update wh st [] = ([], [])"
| "sql_update wh st (r # rows) =
     (case sql_update wh st rows of
        (rows', written) \<Rightarrow>
          if wh r then (st r # rows', st r # written) else (r # rows', written))"

text \<open>The statement as \<^verbatim>\<open>DB.rawExec\<close> runs it: rejected, or completed with the rows written.\<close>

definition sweep_statement :: "int \<Rightarrow> (users_row list, world) promise" where
  "sweep_statement hours w =
     (case sweep_threshold (clock w) hours of
        Inl err \<Rightarrow> (Inl err, w)
      | Inr t \<Rightarrow>
          (case sql_update (sweep_where (clock w) hours) (\<lambda>r. r\<lparr>verified := False\<rparr>) (users w) of
             (rows', written) \<Rightarrow> (Inr written, w\<lparr>users := rows'\<rparr>)))"

text \<open>
  \<^verbatim>\<open>const res = await DB.rawExec(...); return 0\<close>: what the statement yields is dropped.
\<close>

definition update_unverified :: "int \<Rightarrow> (int, world) promise" where
  "update_unverified hours w =
     (case sweep_statement hours w of
        (Inl err, w1) \<Rightarrow> (Inl err, w1)
      | (Inr res, w1) \<Rightarrow> (Inr 0, w1))"

text \<open>The rows that the WHERE clause of the UPDATE selects: those the statement writes.\<close>

definition rows_matched :: "int \<Rightarrow> world \<Rightarrow> users_row list" where
  "rows_matched hours w = filter (sweep_where (clock w) hours) (users w)"

definition UserRepoSQL :: "world UserRepo" where
  "UserRepoSQL =
     \<lparr>create = insert_user, findByEmail = select_by_email,
      disableUnverifiedOlderThan = update_unverified\<rparr>"

text \<open>\<^verbatim>\<open>console.log("[EMAIL] Welcome", { to, name })\<close>.\<close>

definition EmailSenderImpl :: "world EmailSender" where
  "EmailSenderImpl =
     \<lparr>sendWelcome = (\<lambda>to nm w. (Inr (), w\<lparr>console := console w @ [(to, nm)]\<rparr>))\<rparr>"

text \<open>
  The identifier generator of \<^verbatim>\<open>shared/result\<close> is a parameter: \<open>gen n\<close> is the string
  its call number \<open>n\<close> returns.
\<close>

definition IdGen :: "(nat \<Rightarrow> string) \<Rightarrow> world IdGen" where
  "IdGen gen = \<lparr>newId = (\<lambda>w. (gen (ids_issued w), w\<lparr>ids_issued := Suc (ids_issued w)\<rparr>))\<rparr>"

definition signups :: "world Topic" where
  "signups = \<lparr>publish = (\<lambda>ev w. (Inr (), w\<lparr>signups_topic := signups_topic w @ [ev]\<rparr>))\<rparr>"

text \<open>The body of the handler of \<^verbatim>\<open>POST /users\<close>, over the use case's ports and the topic.\<close>

definition register_handler ::
  "'w deps \<Rightarrow> 'w Topic \<Rightarrow> RegisterInput \<Rightarrow> (RegisterResponse, 'w) promise" where
  "register_handler d topic req w =
     (case exec d req w of
        (Inl err, w1) \<Rightarrow> (Inl err, w1)
      | (Inr user, w1) \<Rightarrow>
          (case publish topic \<lparr>userID = id' user, event_email = email user\<rparr> w1 of
             (Inl err, w2) \<Rightarrow> (Inl err, w2)
           | (Inr _, w2) \<Rightarrow>
               (Inr \<lparr>email = email user, name = name user, id' = id' user,
                     verified = verified user, status = Created\<rparr>, w2)))"

definition wired :: "(nat \<Rightarrow> string) \<Rightarrow> world deps" where
  "wired gen = \<lparr>repo = UserRepoSQL, id_gen = IdGen gen, mail = EmailSenderImpl\<rparr>"

definition register :: "(nat \<Rightarrow> string) \<Rightarrow> RegisterInput \<Rightarrow> (RegisterResponse, world) promise" where
  "register gen = register_handler (wired gen) signups"

text \<open>The cron endpoint: \<^verbatim>\<open>await UserRepoSQL().disableUnverifiedOlderThan(24)\<close>.\<close>

definition cleanupUnverified :: "(unit, world) promise" where
  "cleanupUnverified w =
     (case disableUnverifiedOlderThan UserRepoSQL 24 w of
        (Inl err, w1) \<Rightarrow> (Inl err, w1)
      | (Inr _, w1) \<Rightarrow> (Inr (), w1))"


section \<open>The fakes of the unit test\<close>

text \<open>
  \<^verbatim>\<open>InMemRepo\<close> keeps a \<^verbatim>\<open>Map\<close> from email to record; the test's identifier generator
  always answers \<^verbatim>\<open>"id-1"\<close>; its mail sender does nothing.
\<close>

type_synonym in_mem = "string \<rightharpoonup> RegisterOutput"

definition InMemRepo :: "in_mem UserRepo" where
  "InMemRepo =
     \<lparr>create = (\<lambda>u m. (Inr (), m(email u \<mapsto> u))),
      findByEmail = (\<lambda>e m. (Inr (m e), m)),
      disableUnverifiedOlderThan = (\<lambda>h m. (Inr 0, m))\<rparr>"

definition TestIdGen :: "'w IdGen" where
  "TestIdGen = \<lparr>newId = (\<lambda>w. (''id-1'', w))\<rparr>"

definition Mail :: "'w EmailSender" where
  "Mail = \<lparr>sendWelcome = (\<lambda>to nm w. (Inr (), w))\<rparr>"

definition test_deps :: "in_mem deps" where
  "test_deps = \<lparr>repo = InMemRepo, id_gen = TestIdGen, mail = Mail\<rparr>"

section \<open>Observing the port calls\<close>

text \<open>
  To state which ports a run calls, with what and in which order, a port is wrapped so
  that every call is appended to a log kept beside the world, as a test double records
  its calls. The wrapped port answers as the port does.
\<close>

datatype call =
    FindByEmail string
  | NewId
  | Create RegisterOutput
  | SendWelcome string "string option"
  | Publish SignupEvent
  | DisableUnverifiedOlderThan int

definition logged :: "call \<Rightarrow> ('a, 'w) promise \<Rightarrow> ('a, 'w \<times> call list) promise" where
  "logged c f = (\<lambda>(w, t). case f w of (res, w1) \<Rightarrow> (res, (w1, t @ [c])))"

definition spy_repo :: "'w UserRepo \<Rightarrow> ('w \<times> call list) UserRepo" where
  "spy_repo r =
     \<lparr>create = (\<lambda>u. logged (Create u) (create r u)),
      findByEmail = (\<lambda>e. logged (FindByEmail e) (findByEmail r e)),
      disableUnverifiedOlderThan =
        (\<lambda>h. logged (DisableUnverifiedOlderThan h) (disableUnverifiedOlderThan r h))\<rparr>"

definition spy_id_gen :: "'w IdGen \<Rightarrow> ('w \<times> call list) IdGen" where
  "spy_id_gen g = \<lparr>newId = (\<lambda>(w, t). case newId g w of (i, w1) \<Rightarrow> (i, (w1, t @ [NewId])))\<rparr>"

definition spy_mail :: "'w EmailSender \<Rightarrow> ('w \<times> call list) EmailSender" where
  "spy_mail m = \<lparr>sendWelcome = (\<lambda>to nm. logged (SendWelcome to nm) (sendWelcome m to nm))\<rparr>"

definition spy :: "'w deps \<Rightarrow> ('w \<times> call list) deps" where
  "spy d = \<lparr>repo = spy_repo (repo d), id_gen = spy_id_gen (id_gen d), mail = spy_mail (mail d)\<rparr>"

definition spy_topic :: "'w Topic \<Rightarrow> ('w \<times> call list) Topic" where
  "spy_topic tp = \<lparr>publish = (\<lambda>ev. logged (Publish ev) (publish tp ev))\<rparr>"


section \<open>Runs of the service\<close>

text \<open>
  What happens to the deployed world, one event at a time: a call of the use case, a
  request to the HTTP handler, the cron endpoint, a sweep with any number of hours, or
  time passing. The world starts with an empty table. The delivery of a published event
  to the subscription \<^verbatim>\<open>send-welcome-secondary\<close>, which writes one more line to the
  console, is not among the events.
\<close>

datatype action =
    Exec RegisterInput
  | Register RegisterInput
  | Cleanup
  | Sweep int
  | Tick nat

fun step :: "(nat \<Rightarrow> string) \<Rightarrow> action \<Rightarrow> world \<Rightarrow> world" where
  "step gen (Exec input) w = snd (exec (wired gen) input w)"
| "step gen (Register req) w = snd (register gen req w)"
| "step gen Cleanup w = snd (cleanupUnverified w)"
| "step gen (Sweep hours) w = snd (disableUnverifiedOlderThan UserRepoSQL hours w)"
| "step gen (Tick n) w = w\<lparr>clock := clock w + int n\<rparr>"

fun run :: "(nat \<Rightarrow> string) \<Rightarrow> action list \<Rightarrow> world \<Rightarrow> world" where
  "run gen [] w = w"
| "run gen (a # as) w = run gen as (step gen a w)"

definition initial :: "int \<Rightarrow> world" where
  "initial t0 = \<lparr>users = [], clock = t0, ids_issued = 0, console = [], signups_topic = []\<rparr>"

section \<open>Example worlds\<close>

text \<open>
  The unit test's generator, which answers \<^verbatim>\<open>"id-1"\<close> at every call, as the generator of
  the deployed wiring.
\<close>

definition const_gen :: "nat \<Rightarrow> string" where
  "const_gen n = ''id-1''"

text \<open>The deployed world after Alice has registered at time 0.\<close>

definition alice_world :: world where
  "alice_world =
     snd (exec (wired const_gen) \<lparr>email = ''A@B.com'', name = Some ''Alice''\<rparr> (initial 0))"

text \<open>Bob's request, with capitals and blanks around the address.\<close>

definition bob :: RegisterInput where
  "bob = \<lparr>email = '' Bob@Example.COM '', name = Some ''Bob''\<rparr>"

definition bob_user :: RegisterOutput where
  "bob_user = \<lparr>email = ''bob@example.com'', name = Some ''Bob'', id' = ''id-1'', verified = False\<rparr>"

definition bob_world :: world where
  "bob_world =
     \<lparr>users = [\<lparr>email = ''bob@example.com'', name = Some ''Bob'', id' = ''id-1'',
                verified = False, created_at = 0\<rparr>],
      clock = 0, ids_issued = 1, console = [(''bob@example.com'', Some ''Bob'')],
      signups_topic = [\<lparr>userID = ''id-1'', event_email = ''bob@example.com''\<rparr>]\<rparr>"

text \<open>
  A table two days after its first rows were written: a stale unverified row, an
  unverified row of the last hours, and a stale row that is verified, as the seed script
  inserts one.
\<close>

definition sweep_world :: world where
  "sweep_world =
     \<lparr>users =
        [\<lparr>email = ''bob@example.com'', name = Some ''Bob'', id' = ''2'', verified = False,
          created_at = 0\<rparr>,
         \<lparr>email = ''carol@example.com'', name = None, id' = ''3'', verified = False,
          created_at = 100000000000\<rparr>,
         \<lparr>email = ''alice@example.com'', name = Some ''Alice'', id' = ''1'', verified = True,
          created_at = 0\<rparr>],
      clock = 172800000000, ids_issued = 0, console = [], signups_topic = []\<rparr>"

text \<open>A run: Alice registers twice, a day passes, the cron job runs, Bob registers.\<close>

definition sample_run :: "action list" where
  "sample_run =
     [Register \<lparr>email = ''A@B.com'', name = Some ''Alice''\<rparr>,
      Exec \<lparr>email = '' a@b.COM '', name = None\<rparr>,
      Tick 90000000000,
      Cleanup,
      Sweep 1,
      Register bob]"

text \<open>A generator that numbers its answers in unary: \<^verbatim>\<open>id-1\<close>, \<^verbatim>\<open>id-11\<close>, and so on.\<close>

definition tally_gen :: "nat \<Rightarrow> string" where
  "tally_gen n = ''id-'' @ replicate (Suc n) CHR ''1''"


section \<open>The pattern and its matcher\<close>

text \<open>The matcher accepts exactly the strings of the shape the specification describes.\<close>

lemma matches_One:
  "matches (One a # ps) s \<longleftrightarrow> (\<exists>c v. s = c # v \<and> atom_ok a c \<and> matches ps v)"
  by (cases s) auto

lemma matches_Plus:
  "matches (Plus a # ps) s \<longleftrightarrow>
     (\<exists>u v. s = u @ v \<and> u \<noteq> [] \<and> (\<forall>c \<in> set u. atom_ok a c) \<and> matches ps v)"
proof (induction s)
  case Nil
  then show ?case by simp
next
  case (Cons x s)
  show ?case
  proof
    assume m: "matches (Plus a # ps) (x # s)"
    then have ok: "atom_ok a x" by simp
    from m have "matches (Plus a # ps) s \<or> matches ps s" by simp
    then show "\<exists>u v. x # s = u @ v \<and> u \<noteq> [] \<and> (\<forall>c \<in> set u. atom_ok a c) \<and> matches ps v"
    proof
      assume "matches (Plus a # ps) s"
      with Cons.IH obtain u v where "s = u @ v" "u \<noteq> []" "\<forall>c \<in> set u. atom_ok a c" "matches ps v"
        by blast
      with ok have "x # s = (x # u) @ v \<and> x # u \<noteq> [] \<and> (\<forall>c \<in> set (x # u). atom_ok a c) \<and> matches ps v"
        by simp
      then show ?thesis by blast
    next
      assume "matches ps s"
      with ok have "x # s = [x] @ s \<and> [x] \<noteq> [] \<and> (\<forall>c \<in> set [x]. atom_ok a c) \<and> matches ps s"
        by simp
      then show ?thesis by blast
    qed
  next
    assume "\<exists>u v. x # s = u @ v \<and> u \<noteq> [] \<and> (\<forall>c \<in> set u. atom_ok a c) \<and> matches ps v"
    then obtain u v where uv: "x # s = u @ v" "u \<noteq> []" "\<forall>c \<in> set u. atom_ok a c" "matches ps v"
      by blast
    then obtain u' where u: "u = x # u'" by (cases u) auto
    with uv have s: "s = u' @ v" and ok: "atom_ok a x" and rest: "\<forall>c \<in> set u'. atom_ok a c"
      by auto
    show "matches (Plus a # ps) (x # s)"
    proof (cases "u' = []")
      case True
      with s uv ok show ?thesis by simp
    next
      case False
      with s rest uv Cons.IH have "matches (Plus a # ps) s" by blast
      with ok show ?thesis by simp
    qed
  qed
qed

lemma matches_Plus_NotLit_end:
  "matches [Plus (NotLit x)] s \<longleftrightarrow> s \<noteq> [] \<and> x \<notin> set s"
  by (auto simp: matches_Plus)

lemma matches_Plus_NotLit:
  "matches (Plus (NotLit x) # ps) s \<longleftrightarrow>
     (\<exists>u v. s = u @ v \<and> u \<noteq> [] \<and> x \<notin> set u \<and> matches ps v)"
  unfolding matches_Plus by (rule iffI; elim exE conjE; intro exI conjI; auto)

lemma matches_One_Lit:
  "matches (One (Lit x) # ps) s \<longleftrightarrow> (\<exists>v. s = x # v \<and> matches ps v)"
  by (cases s) auto

lemma matches_EMAIL_RE: "matches EMAIL_RE s \<longleftrightarrow> email_shape s"
proof
  assume "matches EMAIL_RE s"
  then obtain a r1 where a: "s = a @ r1" "a \<noteq> []" "CHR ''@'' \<notin> set a"
    and r1: "matches [One (Lit CHR ''@''), Plus (NotLit CHR ''@''), One (Lit CHR ''.''),
                      Plus (NotLit CHR ''@'')] r1"
    unfolding EMAIL_RE_def matches_Plus_NotLit by blast
  from r1 obtain r2 where r2: "r1 = CHR ''@'' # r2"
    "matches [Plus (NotLit CHR ''@''), One (Lit CHR ''.''), Plus (NotLit CHR ''@'')] r2"
    unfolding matches_One_Lit by blast
  from r2(2) obtain b r3 where b: "r2 = b @ r3" "b \<noteq> []" "CHR ''@'' \<notin> set b"
    and r3: "matches [One (Lit CHR ''.''), Plus (NotLit CHR ''@'')] r3"
    unfolding matches_Plus_NotLit by blast
  from r3 obtain c where c: "r3 = CHR ''.'' # c" "matches [Plus (NotLit CHR ''@'')] c"
    unfolding matches_One_Lit by blast
  from c(2) have c': "c \<noteq> []" "CHR ''@'' \<notin> set c"
    by (simp_all add: matches_Plus_NotLit_end)
  have "s = a @ ''@'' @ b @ ''.'' @ c"
    using a(1) r2(1) b(1) c(1) by simp
  with a b c' show "email_shape s"
    unfolding email_shape_def by blast
next
  assume "email_shape s"
  then obtain a b c where s: "s = a @ ''@'' @ b @ ''.'' @ c"
    and ne: "a \<noteq> []" "b \<noteq> []" "c \<noteq> []"
    and na: "CHR ''@'' \<notin> set a" "CHR ''@'' \<notin> set b" "CHR ''@'' \<notin> set c"
    unfolding email_shape_def by blast
  have m5: "matches [Plus (NotLit CHR ''@'')] c"
    using ne na by (simp add: matches_Plus_NotLit_end)
  have m4: "matches [One (Lit CHR ''.''), Plus (NotLit CHR ''@'')] (''.'' @ c)"
    using m5 by simp
  have m3: "matches [Plus (NotLit CHR ''@''), One (Lit CHR ''.''), Plus (NotLit CHR ''@'')]
              (b @ ''.'' @ c)"
    unfolding matches_Plus_NotLit using m4 ne na by blast
  have m2: "matches [One (Lit CHR ''@''), Plus (NotLit CHR ''@''), One (Lit CHR ''.''),
              Plus (NotLit CHR ''@'')] (''@'' @ b @ ''.'' @ c)"
    using m3 by simp
  have "matches EMAIL_RE (a @ ''@'' @ b @ ''.'' @ c)"
    unfolding EMAIL_RE_def matches_Plus_NotLit using m2 ne na by blast
  with s show "matches EMAIL_RE s" by simp
qed


section \<open>Normal forms\<close>

text \<open>
  Lower-casing keeps white space white space and the rest the rest, so trimming and
  lower-casing commute, and a trimmed, lower-cased string is left alone by both.
\<close>

lemma toLowerChar_code:
  "of_char (toLowerChar c) =
     (let n = of_char c :: nat in
      if (65 \<le> n \<and> n \<le> 90) \<or> (192 \<le> n \<and> n \<le> 222 \<and> n \<noteq> 215) then n + 32 else n)"
  by (simp add: toLowerChar_def Let_def)

lemma toLowerChar_idem: "toLowerChar (toLowerChar c) = toLowerChar c"
proof -
  have "of_char (toLowerChar (toLowerChar c)) = (of_char (toLowerChar c) :: nat)"
    unfolding toLowerChar_code [of "toLowerChar c"] by (auto simp: toLowerChar_code Let_def)
  then show ?thesis
    by (simp only: of_char_eq_iff)
qed

lemma isWhiteSpace_code:
  "isWhiteSpace c \<longleftrightarrow> (of_char c :: nat) \<in> {9, 10, 11, 12, 13, 32, 160}"
proof -
  have e: "\<And>d. c = d \<longleftrightarrow> (of_char c :: nat) = of_char d"
    by simp
  show ?thesis
    unfolding isWhiteSpace_def by (simp add: e del: of_char_eq_iff)
qed

lemma isWhiteSpace_toLowerChar: "isWhiteSpace (toLowerChar c) \<longleftrightarrow> isWhiteSpace c"
  unfolding isWhiteSpace_code toLowerChar_code by (auto simp: Let_def)

lemma trim_toLowerCase: "trim (toLowerCase s) = toLowerCase (trim s)"
proof -
  have dw: "\<And>xs. dropWhile isWhiteSpace (map toLowerChar xs) = map toLowerChar (dropWhile isWhiteSpace xs)"
    by (simp add: dropWhile_map comp_def isWhiteSpace_toLowerChar)
  show ?thesis
    by (simp add: trim_def toLowerCase_def dw rev_map)
qed

lemma toLowerCase_idem: "toLowerCase (toLowerCase s) = toLowerCase s"
  by (simp add: toLowerCase_def toLowerChar_idem)

lemma dropWhile_snoc_keep:
  "\<not> P x \<Longrightarrow> dropWhile P (ys @ [x]) = dropWhile P ys @ [x]"
  by (induction ys) auto

lemma dropWhile_rev_dropWhile:
  "dropWhile P (rev (dropWhile P (rev (dropWhile P s)))) = rev (dropWhile P (rev (dropWhile P s)))"
proof (cases "dropWhile P s")
  case Nil
  show ?thesis
    unfolding Nil by simp
next
  case (Cons x xs)
  then have nx: "\<not> P x"
    by (metis hd_dropWhile list.sel(1) list.distinct(1))
  have "rev (dropWhile P (rev (x # xs))) = x # rev (dropWhile P (rev xs))"
    using nx by (simp add: dropWhile_snoc_keep)
  then show ?thesis
    unfolding Cons using nx by simp
qed

lemma trim_idem: "trim (trim s) = trim s"
  by (simp add: trim_def dropWhile_rev_dropWhile dropWhile_idem)

lemma normalize_idem:
  "toLowerCase (trim (toLowerCase (trim s))) = toLowerCase (trim s)"
  by (simp add: trim_toLowerCase trim_idem toLowerCase_idem)

lemma normalized_fixed:
  "trim (toLowerCase (trim s)) = toLowerCase (trim s)"
  "toLowerCase (toLowerCase (trim s)) = toLowerCase (trim s)"
  by (simp_all add: trim_toLowerCase trim_idem toLowerCase_idem)

section \<open>The use case on the deployed wiring\<close>

lemmas wiring_defs = wired_def UserRepoSQL_def EmailSenderImpl_def IdGen_def signups_def
  insert_user_def select_by_email_def update_unverified_def

lemma find_Some_D: "find P xs = Some x \<Longrightarrow> x \<in> set xs \<and> P x"
  by (induction xs) (auto split: if_splits)

lemmas text_defs = has_nul_def fits_btree_def utf8_length_def

text \<open>
  With the SQL repository, the counting generator and the logging mail sender: the two
  refusals of the use case, the rejections of the SELECT and of the INSERT passed on, or
  the new record.
\<close>

lemma exec_wired:
  "exec (wired gen) input w =
     (let e = toLowerCase (trim (email input));
          i = gen (ids_issued w);
          w2 = w\<lparr>ids_issued := Suc (ids_issued w)\<rparr> in
      if \<not> matches EMAIL_RE e then (Inl (Error ''INVALID_EMAIL''), w)
      else if has_nul e then (Inl SqlInvalidByteSequence, w)
      else if \<exists>r \<in> set (users w). email r = e then (Inl (Error ''EMAIL_TAKEN''), w)
      else if has_nul i \<or> (case name input of None \<Rightarrow> False | Some n \<Rightarrow> has_nul n)
        then (Inl SqlInvalidByteSequence, w2)
      else if \<exists>r \<in> set (users w). id' r = i
        then (Inl (SqlUniqueViolation ''users_pkey''), w2)
      else if \<not> fits_btree i then (Inl (SqlIndexRowTooLarge ''users_pkey''), w2)
      else if \<not> fits_btree e then (Inl (SqlIndexRowTooLarge ''users_email_key''), w2)
      else (Inr \<lparr>email = e, name = name input, id' = i, verified = False\<rparr>,
            w\<lparr>users := users w @
                 [\<lparr>email = e, name = name input, id' = i, verified = False,
                   created_at = clock w\<rparr>],
              ids_issued := Suc (ids_issued w),
              console := console w @ [(e, name input)]\<rparr>))"
  by (auto simp: exec_def wiring_defs Let_def find_None_iff split: option.splits
      dest!: find_Some_D)

lemma normalize_A_at_B: "toLowerCase (trim ''A@B.com'') = ''a@b.com''"
  by code_simp

lemma normalize_c_at_d: "toLowerCase (trim ''c@d.com'') = ''c@d.com''"
  by code_simp

lemma shape_a_at_b: "email_shape ''a@b.com''"
  unfolding matches_EMAIL_RE [symmetric] by (simp add: EMAIL_RE_def)

lemma shape_c_at_d: "email_shape ''c@d.com''"
  unfolding matches_EMAIL_RE [symmetric] by (simp add: EMAIL_RE_def)

lemma alice_world_eq:
  "alice_world =
     \<lparr>users = [\<lparr>email = ''a@b.com'', name = Some ''Alice'', id' = ''id-1'', verified = False,
                created_at = 0\<rparr>],
      clock = 0, ids_issued = 1, console = [(''a@b.com'', Some ''Alice'')],
      signups_topic = []\<rparr>"
  by (simp add: alice_world_def exec_wired Let_def normalize_A_at_B EMAIL_RE_def initial_def
      const_gen_def text_defs)



section \<open>The use case under observation\<close>

lemmas spy_defs = spy_def spy_repo_def spy_id_gen_def spy_mail_def spy_topic_def logged_def

text \<open>The use case on wrapped ports: what it returns, and the calls it has logged by then.\<close>

lemma exec_spy:
  "exec (spy d) input (w, t) =
     (let e = toLowerCase (trim (email input)) in
      if \<not> matches EMAIL_RE e then (Inl (Error ''INVALID_EMAIL''), (w, t))
      else
        case findByEmail (repo d) e w of
          (Inl err, w1) \<Rightarrow> (Inl err, (w1, t @ [FindByEmail e]))
        | (Inr (Some existing), w1) \<Rightarrow> (Inl (Error ''EMAIL_TAKEN''), (w1, t @ [FindByEmail e]))
        | (Inr None, w1) \<Rightarrow>
            (case newId (id_gen d) w1 of
               (i, w2) \<Rightarrow>
                 (let user = \<lparr>email = e, name = name input, id' = i, verified = False\<rparr> in
                  case create (repo d) user w2 of
                    (Inl err, w3) \<Rightarrow> (Inl err, (w3, t @ [FindByEmail e, NewId, Create user]))
                  | (Inr _, w3) \<Rightarrow>
                      (case sendWelcome (mail d) e (name input) w3 of
                         (Inl err, w4) \<Rightarrow>
                           (Inl err,
                            (w4, t @ [FindByEmail e, NewId, Create user,
                                      SendWelcome e (name input)]))
                       | (Inr _, w4) \<Rightarrow>
                           (Inr user,
                            (w4, t @ [FindByEmail e, NewId, Create user,
                                      SendWelcome e (name input)]))))))"
  by (simp add: exec_def spy_defs Let_def split: prod.splits sum.splits option.splits)

text \<open>Wrapping changes neither the result nor the world.\<close>

lemma exec_spy_transparent:
  "exec (spy d) input (w, t) = (res, (w', t')) \<Longrightarrow> exec d input w = (res, w')"
  unfolding exec_spy
  by (auto simp: exec_def Let_def split: prod.splits sum.splits option.splits if_splits)

lemma exec_spy_success:
  assumes "exec (spy d) input (w, t) = (Inr u, (w', t'))"
  shows "matches EMAIL_RE (toLowerCase (trim (email input)))"
    and "u = \<lparr>email = toLowerCase (trim (email input)), name = name input, id' = id' u,
              verified = False\<rparr>"
    and "t' = t @ [FindByEmail (toLowerCase (trim (email input))), NewId, Create u,
                   SendWelcome (toLowerCase (trim (email input))) (name input)]"
    and "id' u = fst (newId (id_gen d)
                   (snd (findByEmail (repo d) (toLowerCase (trim (email input))) w)))"
  using assms unfolding exec_spy
  by (auto simp: Let_def split: prod.splits sum.splits option.splits if_splits)

lemma exec_spy_calls:
  assumes "exec (spy d) input (w, t) = (res, (w', t'))"
  shows "\<exists>i. t' \<in> {t, t @ [FindByEmail (toLowerCase (trim (email input)))],
              t @ [FindByEmail (toLowerCase (trim (email input))), NewId,
                   Create \<lparr>email = toLowerCase (trim (email input)), name = name input,
                           id' = i, verified = False\<rparr>],
              t @ [FindByEmail (toLowerCase (trim (email input))), NewId,
                   Create \<lparr>email = toLowerCase (trim (email input)), name = name input,
                           id' = i, verified = False\<rparr>,
                   SendWelcome (toLowerCase (trim (email input))) (name input)]}"
  using assms unfolding exec_spy
  by (auto simp: Let_def split: prod.splits sum.splits option.splits if_splits)

lemma exec_wired_users:
  "users (snd (exec (wired gen) input w)) = users w \<or>
   (\<exists>i. users (snd (exec (wired gen) input w)) =
      users w @ [\<lparr>email = toLowerCase (trim (email input)), name = name input, id' = i,
                  verified = False, created_at = clock w\<rparr>] \<and>
      toLowerCase (trim (email input)) \<notin> email ` set (users w) \<and>
      i \<notin> id' ` set (users w))"
  by (auto simp: exec_wired Let_def)

lemma register_handler_spy:
  "register_handler (spy d) (spy_topic tp) req (w, t) =
     (case exec (spy d) req (w, t) of
        (Inl err, s1) \<Rightarrow> (Inl err, s1)
      | (Inr user, (w1, t1)) \<Rightarrow>
          (case publish tp \<lparr>userID = id' user, event_email = email user\<rparr> w1 of
             (Inl err, w2) \<Rightarrow>
               (Inl err, (w2, t1 @ [Publish \<lparr>userID = id' user, event_email = email user\<rparr>]))
           | (Inr _, w2) \<Rightarrow>
               (Inr \<lparr>email = email user, name = name user, id' = id' user,
                     verified = verified user, status = Created\<rparr>,
                (w2, t1 @ [Publish \<lparr>userID = id' user, event_email = email user\<rparr>]))))"
  by (simp add: register_handler_def spy_topic_def logged_def
      split: prod.splits sum.splits)


section \<open>The sweep and the runs\<close>

lemma unverified_update_noop:
  fixes r :: users_row
  shows "verified r = False \<Longrightarrow> r\<lparr>verified := False\<rparr> = r"
  by (cases r) simp

lemma sql_update_eq:
  "sql_update wh st rows = (map (\<lambda>r. if wh r then st r else r) rows, map st (filter wh rows))"
  by (induction rows) auto

lemma sweep_statement_eq:
  "sweep_statement hours w =
     (case sweep_threshold (clock w) hours of
        Inl err \<Rightarrow> (Inl err, w)
      | Inr t \<Rightarrow>
          (Inr (map (\<lambda>r. r\<lparr>verified := False\<rparr>) (filter (sweep_where (clock w) hours) (users w))),
           w))"
proof -
  have "map (\<lambda>r. if sweep_where (clock w) hours r then r\<lparr>verified := False\<rparr> else r) (users w)
          = users w"
    by (rule map_idI) (simp add: sweep_where_def unverified_update_noop)
  then show ?thesis
    by (simp add: sweep_statement_def sql_update_eq split: sum.splits)
qed

lemma sweep_statement_rows_matched:
  "sweep_statement hours w = (Inr written, w') \<Longrightarrow>
     written = map (\<lambda>r. r\<lparr>verified := False\<rparr>) (rows_matched hours w)"
  by (auto simp: sweep_statement_eq rows_matched_def split: sum.splits)

lemma update_unverified_eq:
  "update_unverified hours w =
     (case sweep_threshold (clock w) hours of
        Inl err \<Rightarrow> (Inl err, w)
      | Inr t \<Rightarrow> (Inr 0, w))"
  by (simp add: update_unverified_def sweep_statement_eq split: sum.splits)

lemma update_unverified_noop: "snd (update_unverified hours w) = w"
  by (simp add: update_unverified_eq split: sum.splits)

lemma cleanupUnverified_noop: "snd (cleanupUnverified w) = w"
  by (simp add: cleanupUnverified_def UserRepoSQL_def update_unverified_eq split: sum.splits)

lemma register_wired_users:
  "users (snd (register gen req w)) = users (snd (exec (wired gen) req w))"
  by (simp add: register_def register_handler_def signups_def
      split: prod.splits sum.splits)

lemma step_users:
  "users (step gen a w) = users w \<or>
   (\<exists>r. users (step gen a w) = users w @ [r] \<and> email r \<notin> email ` set (users w) \<and>
        id' r \<notin> id' ` set (users w) \<and> verified r = False \<and>
        toLowerCase (trim (email r)) = email r)"
proof (cases a)
  case (Exec input)
  then show ?thesis
    using exec_wired_users [of gen input w] by (auto simp: normalize_idem)
next
  case (Register req)
  then show ?thesis
    using exec_wired_users [of gen req w] by (auto simp: register_wired_users normalize_idem)
next
  case Cleanup
  then show ?thesis by (simp add: cleanupUnverified_noop)
next
  case (Sweep hours)
  then show ?thesis by (simp add: UserRepoSQL_def update_unverified_noop)
next
  case (Tick n)
  then show ?thesis by simp
qed

lemma run_table:
  assumes "distinct (map email (users w))" and "distinct (map id' (users w))"
    and "\<forall>r \<in> set (users w). verified r = False"
    and "\<forall>r \<in> set (users w). toLowerCase (trim (email r)) = email r"
  shows "distinct (map email (users (run gen acts w))) \<and>
         distinct (map id' (users (run gen acts w))) \<and>
         (\<forall>r \<in> set (users (run gen acts w)). verified r = False) \<and>
         (\<forall>r \<in> set (users (run gen acts w)). toLowerCase (trim (email r)) = email r)"
  using assms
proof (induction acts arbitrary: w)
  case Nil
  then show ?case by simp
next
  case (Cons a acts)
  have "distinct (map email (users (step gen a w))) \<and>
        distinct (map id' (users (step gen a w))) \<and>
        (\<forall>r \<in> set (users (step gen a w)). verified r = False) \<and>
        (\<forall>r \<in> set (users (step gen a w)). toLowerCase (trim (email r)) = email r)"
    using step_users [of gen a w] Cons.prems by auto
  then show ?case
    using Cons.IH [of "step gen a w"] by simp
qed

lemma normalize_bob: "toLowerCase (trim '' Bob@Example.COM '') = ''bob@example.com''"
  by code_simp

lemma normalize_alice_again: "toLowerCase (trim '' a@b.COM '') = ''a@b.com''"
  by code_simp

lemma sample_run_users:
  "users (run tally_gen sample_run (initial 0)) =
     [\<lparr>email = ''a@b.com'', name = Some ''Alice'', id' = ''id-1'', verified = False,
       created_at = 0\<rparr>,
      \<lparr>email = ''bob@example.com'', name = Some ''Bob'', id' = ''id-11'', verified = False,
       created_at = 90000000000\<rparr>]"
  by (simp add: sample_run_def register_def register_handler_def exec_wired Let_def
      normalize_A_at_B normalize_bob normalize_alice_again EMAIL_RE_def initial_def
      cleanupUnverified_noop UserRepoSQL_def update_unverified_noop signups_def tally_gen_def
      bob_def text_defs)


section \<open>Successful registration\<close>

text \<open>
  Claim C1, as the code has it: when the trimmed, lower-cased email has the shape of the
  pattern, \<^verbatim>\<open>findByEmail\<close> answers null for it, and the calls of \<^verbatim>\<open>create\<close> and
  \<^verbatim>\<open>sendWelcome\<close> complete, \<^verbatim>\<open>exec\<close> returns the record made of the identifier that
  \<^verbatim>\<open>newId\<close> returned, the normalized email, the name of the input and
  \<^verbatim>\<open>verified = false\<close>, in the world the last call left.
\<close>

theorem exec_registers:
  assumes "email_shape (toLowerCase (trim (email input)))"
    and "findByEmail (repo d) (toLowerCase (trim (email input))) w = (Inr None, w1)"
    and "newId (id_gen d) w1 = (i, w2)"
    and "create (repo d)
           \<lparr>email = toLowerCase (trim (email input)), name = name input, id' = i,
            verified = False\<rparr> w2 = (Inr (), w3)"
    and "sendWelcome (mail d) (toLowerCase (trim (email input))) (name input) w3 = (Inr (), w4)"
  shows "exec d input w =
           (Inr \<lparr>email = toLowerCase (trim (email input)), name = name input, id' = i,
                 verified = False\<rparr>, w4)"
  using assms by (simp add: exec_def matches_EMAIL_RE)

text \<open>The repository's unit test \<^verbatim>\<open>registers user\<close>, on its fakes.\<close>

theorem exec_registers_witness:
  "exec test_deps \<lparr>email = ''A@B.com'', name = Some ''Alice''\<rparr> Map.empty =
     (Inr \<lparr>email = ''a@b.com'', name = Some ''Alice'', id' = ''id-1'', verified = False\<rparr>,
      [''a@b.com'' \<mapsto>
         \<lparr>email = ''a@b.com'', name = Some ''Alice'', id' = ''id-1'', verified = False\<rparr>])"
  using exec_registers [of "\<lparr>email = ''A@B.com'', name = Some ''Alice''\<rparr>" test_deps
      Map.empty Map.empty "''id-1''" Map.empty
      "[''a@b.com'' \<mapsto>
         \<lparr>email = ''a@b.com'', name = Some ''Alice'', id' = ''id-1'', verified = False\<rparr>]"
      "[''a@b.com'' \<mapsto>
         \<lparr>email = ''a@b.com'', name = Some ''Alice'', id' = ''id-1'', verified = False\<rparr>]"]
  by (simp add: normalize_A_at_B shape_a_at_b test_deps_def InMemRepo_def TestIdGen_def
      Mail_def)

text \<open>
  Without the condition on \<^verbatim>\<open>create\<close> the claim fails on the deployed wiring: after
  Alice, a well-formed and unseen email is refused by the table's primary key when
  the generator answers \<^verbatim>\<open>"id-1"\<close> again.
\<close>

theorem exec_registers_counterexample:
  "email_shape (toLowerCase (trim ''c@d.com'')) \<and>
   fst (findByEmail (repo (wired const_gen)) (toLowerCase (trim ''c@d.com'')) alice_world)
     = Inr None \<and>
   fst (exec (wired const_gen) \<lparr>email = ''c@d.com'', name = None\<rparr> alice_world)
     = Inl (SqlUniqueViolation ''users_pkey'')"
proof (intro conjI)
  show "email_shape (toLowerCase (trim ''c@d.com''))"
    by (simp add: normalize_c_at_d shape_c_at_d)
  show "fst (findByEmail (repo (wired const_gen)) (toLowerCase (trim ''c@d.com'')) alice_world)
          = Inr None"
    by (simp add: normalize_c_at_d alice_world_eq wiring_defs text_defs)
  show "fst (exec (wired const_gen) \<lparr>email = ''c@d.com'', name = None\<rparr> alice_world)
          = Inl (SqlUniqueViolation ''users_pkey'')"
    by (simp add: exec_wired Let_def normalize_c_at_d shape_c_at_d matches_EMAIL_RE
        alice_world_eq const_gen_def text_defs)
qed


section \<open>The errors of the use case\<close>





section \<open>Email normalization\<close>

text \<open>
  Claim C3: whatever the input and the ports, every call of \<^verbatim>\<open>findByEmail\<close> that
  \<^verbatim>\<open>exec\<close> makes is given the trimmed, lower-cased email, every record it passes to
  \<^verbatim>\<open>create\<close> carries that email, and so does the record it returns, which was passed to
  \<^verbatim>\<open>create\<close> after \<^verbatim>\<open>findByEmail\<close> was asked; with the SQL repository every row that
  \<^verbatim>\<open>exec\<close> adds to the table carries it too. That email is trimmed and lower-case:
  trimming it or lower-casing it again changes nothing. The raw email appears only where
  it is already normalized.
\<close>

theorem exec_normalizes_email:
  assumes "exec (spy d) input (w, t) = (res, (w', t'))"
  shows "\<exists>cs. t' = t @ cs \<and>
           (\<forall>e. FindByEmail e \<in> set cs \<longrightarrow> e = toLowerCase (trim (email input))) \<and>
           (\<forall>u. Create u \<in> set cs \<longrightarrow> email u = toLowerCase (trim (email input))) \<and>
           (\<forall>u. res = Inr u \<longrightarrow>
              email u = toLowerCase (trim (email input)) \<and>
              (\<exists>cs1 cs2 cs3. cs = cs1 @ FindByEmail (email u) # cs2 @ Create u # cs3)) \<and>
           (\<forall>r \<in> set (users (snd (exec (wired gen) input w0))).
              r \<in> set (users w0) \<or> email r = toLowerCase (trim (email input))) \<and>
           trim (toLowerCase (trim (email input))) = toLowerCase (trim (email input)) \<and>
           toLowerCase (toLowerCase (trim (email input))) = toLowerCase (trim (email input))"
proof -
  let ?e = "toLowerCase (trim (email input))"
  have rows: "\<forall>r \<in> set (users (snd (exec (wired gen) input w0))).
                r \<in> set (users w0) \<or> email r = ?e"
    using exec_wired_users [of gen input w0] by auto
  from exec_spy_calls [OF assms] obtain i cs where cs: "t' = t @ cs"
    and mem: "cs \<in> {[], [FindByEmail ?e],
                [FindByEmail ?e, NewId,
                 Create \<lparr>email = ?e, name = name input, id' = i, verified = False\<rparr>],
                [FindByEmail ?e, NewId,
                 Create \<lparr>email = ?e, name = name input, id' = i, verified = False\<rparr>,
                 SendWelcome ?e (name input)]}"
    by auto
  have finds: "\<forall>e. FindByEmail e \<in> set cs \<longrightarrow> e = ?e"
    using mem by auto
  have creates: "\<forall>u. Create u \<in> set cs \<longrightarrow> email u = ?e"
    using mem by auto
  have returned: "\<forall>u. res = Inr u \<longrightarrow>
      email u = ?e \<and> (\<exists>cs1 cs2 cs3. cs = cs1 @ FindByEmail (email u) # cs2 @ Create u # cs3)"
  proof (intro allI impI)
    fix u
    assume "res = Inr u"
    with assms have run: "exec (spy d) input (w, t) = (Inr u, (w', t'))"
      by simp
    have u: "email u = ?e"
      using exec_spy_success(2) [OF run] by (metis RegisterInput.select_convs(1))
    have "t' = t @ [FindByEmail ?e, NewId, Create u, SendWelcome ?e (name input)]"
      by (rule exec_spy_success(3) [OF run])
    with cs have "cs = [] @ FindByEmail (email u) # [NewId] @ Create u # [SendWelcome ?e (name input)]"
      using u by simp
    then show "email u = ?e \<and>
        (\<exists>cs1 cs2 cs3. cs = cs1 @ FindByEmail (email u) # cs2 @ Create u # cs3)"
      using u by blast
  qed
  from cs finds creates returned rows normalized_fixed [of "email input"] show ?thesis
    by blast
qed

text \<open>Bob's request on the deployed wiring, from an empty table.\<close>

theorem exec_normalizes_email_witness:
  "exec (spy (wired const_gen)) bob (initial 0, []) =
     (Inr bob_user,
      (\<lparr>users = [\<lparr>email = ''bob@example.com'', name = Some ''Bob'', id' = ''id-1'',
                  verified = False, created_at = 0\<rparr>],
        clock = 0, ids_issued = 1, console = [(''bob@example.com'', Some ''Bob'')],
        signups_topic = []\<rparr>,
       [FindByEmail ''bob@example.com'', NewId, Create bob_user,
        SendWelcome ''bob@example.com'' (Some ''Bob'')])) \<and>
   email bob \<noteq> ''bob@example.com''"
proof -
  have n: "toLowerCase (trim '' Bob@Example.COM '') = ''bob@example.com''"
    by code_simp
  have run: "exec (spy (wired const_gen)) bob (initial 0, []) =
     (Inr bob_user,
      (\<lparr>users = [\<lparr>email = ''bob@example.com'', name = Some ''Bob'', id' = ''id-1'',
                  verified = False, created_at = 0\<rparr>],
        clock = 0, ids_issued = 1, console = [(''bob@example.com'', Some ''Bob'')],
        signups_topic = []\<rparr>,
       [FindByEmail ''bob@example.com'', NewId, Create bob_user,
        SendWelcome ''bob@example.com'' (Some ''Bob'')]))"
    by (simp add: exec_spy Let_def bob_def bob_user_def n EMAIL_RE_def wiring_defs initial_def
        const_gen_def text_defs)
  have raw: "email bob \<noteq> ''bob@example.com''"
    by (simp add: bob_def)
  from exec_normalizes_email [OF run, of const_gen "initial 0"] run raw show ?thesis
    by blast
qed


section \<open>The order of the handler's steps\<close>

text \<open>
  Claim C4: when the handler of \<^verbatim>\<open>POST /users\<close> returns a response, the normalized email
  has passed the format check and the calls made are, in this order and no others:
  \<^verbatim>\<open>findByEmail\<close> on the normalized email, \<^verbatim>\<open>newId\<close>, \<^verbatim>\<open>create\<close> of the record with the
  identifier \<^verbatim>\<open>newId\<close> returned, \<^verbatim>\<open>sendWelcome\<close>, and \<^verbatim>\<open>publish\<close> of the event carrying
  that identifier and email. The format check comes first: when it fails, no port has
  been called.
\<close>

theorem register_call_order:
  "(register_handler (spy d) (spy_topic tp) req (w, t) = (Inr resp, (w', t')) \<longrightarrow>
      matches EMAIL_RE (toLowerCase (trim (email req))) \<and>
      id' resp =
        fst (newId (id_gen d) (snd (findByEmail (repo d) (toLowerCase (trim (email req))) w))) \<and>
      t' = t @
        [FindByEmail (toLowerCase (trim (email req))),
         NewId,
         Create \<lparr>email = toLowerCase (trim (email req)), name = name req, id' = id' resp,
                 verified = False\<rparr>,
         SendWelcome (toLowerCase (trim (email req))) (name req),
         Publish \<lparr>userID = id' resp, event_email = toLowerCase (trim (email req))\<rparr>]) \<and>
   (\<not> matches EMAIL_RE (toLowerCase (trim (email req))) \<longrightarrow>
      snd (register_handler (spy d) (spy_topic tp) req (w, t)) = (w, t))"
proof (intro conjI impI)
  let ?e = "toLowerCase (trim (email req))"
  assume ok: "register_handler (spy d) (spy_topic tp) req (w, t) = (Inr resp, (w', t'))"
  then obtain user w1 t1 where run: "exec (spy d) req (w, t) = (Inr user, (w1, t1))"
    and resp: "resp = \<lparr>email = email user, name = name user, id' = id' user,
                        verified = verified user, status = Created\<rparr>"
    and t': "t' = t1 @ [Publish \<lparr>userID = id' user, event_email = email user\<rparr>]"
    unfolding register_handler_spy
    by (auto split: prod.splits sum.splits)
  note facts = exec_spy_success [OF run]
  have user: "email user = ?e" "name user = name req"
    using facts(2) by (metis RegisterInput.select_convs)+
  have i: "id' resp = id' user"
    using resp by simp
  show "matches EMAIL_RE ?e"
    by (rule facts(1))
  show "id' resp = fst (newId (id_gen d) (snd (findByEmail (repo d) ?e w)))"
    using facts(4) i by simp
  have "Create user = Create \<lparr>email = ?e, name = name req, id' = id' resp, verified = False\<rparr>"
    using facts(2) i by simp
  then show "t' = t @ [FindByEmail ?e, NewId,
       Create \<lparr>email = ?e, name = name req, id' = id' resp, verified = False\<rparr>,
       SendWelcome ?e (name req), Publish \<lparr>userID = id' resp, event_email = ?e\<rparr>]"
    using t' facts(3) user i by simp
next
  assume "\<not> matches EMAIL_RE (toLowerCase (trim (email req)))"
  then show "snd (register_handler (spy d) (spy_topic tp) req (w, t)) = (w, t)"
    by (simp add: register_handler_spy exec_spy)
qed

text \<open>Bob's request to the deployed handler, from an empty table.\<close>

theorem register_call_order_witness:
  "register_handler (spy (wired const_gen)) (spy_topic signups) bob (initial 0, []) =
     (Inr \<lparr>email = ''bob@example.com'', name = Some ''Bob'', id' = ''id-1'', verified = False,
           status = Created\<rparr>,
      (bob_world,
       [FindByEmail ''bob@example.com'', NewId, Create bob_user,
        SendWelcome ''bob@example.com'' (Some ''Bob''),
        Publish \<lparr>userID = ''id-1'', event_email = ''bob@example.com''\<rparr>]))"
proof -
  have n: "toLowerCase (trim '' Bob@Example.COM '') = ''bob@example.com''"
    by code_simp
  have run: "register_handler (spy (wired const_gen)) (spy_topic signups) bob (initial 0, []) =
     (Inr \<lparr>email = ''bob@example.com'', name = Some ''Bob'', id' = ''id-1'', verified = False,
           status = Created\<rparr>,
      (bob_world,
       [FindByEmail ''bob@example.com'', NewId, Create bob_user,
        SendWelcome ''bob@example.com'' (Some ''Bob''),
        Publish \<lparr>userID = ''id-1'', event_email = ''bob@example.com''\<rparr>]))"
    by (simp add: register_handler_spy exec_spy Let_def bob_def bob_user_def bob_world_def n
        EMAIL_RE_def wiring_defs initial_def const_gen_def text_defs)
  from register_call_order [of "wired const_gen" signups bob "initial 0" "[]"] run
  show ?thesis
    by blast
qed


section \<open>Unique emails\<close>

text \<open>
  Claim C5: from the empty table, whatever the identifier generator answers, no sequence
  of calls of the use case, requests to the handler, sweeps and passing time leaves two
  rows with the same email in the table, nor two rows whose emails are the same once
  trimmed and lower-cased.
\<close>

theorem emails_unique:
  "distinct (map email (users (run gen acts (initial t0)))) \<and>
   distinct (map (\<lambda>r. toLowerCase (trim (email r))) (users (run gen acts (initial t0))))"
proof -
  have table: "distinct (map email (users (run gen acts (initial t0))))"
    and normal: "\<forall>r \<in> set (users (run gen acts (initial t0))).
                   toLowerCase (trim (email r)) = email r"
    using run_table [of "initial t0" gen acts] by (simp_all add: initial_def)
  have same: "map (\<lambda>r. toLowerCase (trim (email r))) (users (run gen acts (initial t0))) =
              map email (users (run gen acts (initial t0)))"
    using normal by (simp cong: map_cong)
  show ?thesis
    unfolding same using table by simp
qed

theorem emails_unique_witness:
  "map email (users (run tally_gen sample_run (initial 0))) = [''a@b.com'', ''bob@example.com''] \<and>
   distinct (map email (users (run tally_gen sample_run (initial 0))))"
  using emails_unique [of tally_gen sample_run 0] by (simp add: sample_run_users)


section \<open>The daily sweep\<close>




section \<open>No row is ever verified\<close>

text \<open>
  Claim C7: from the empty table, after any sequence of calls of the use case, requests
  to the handler, sweeps and passing time, every row of the table has
  \<^verbatim>\<open>verified = false\<close>.
\<close>

theorem never_verified:
  "\<forall>r \<in> set (users (run gen acts (initial t0))). verified r = False"
  using run_table [of "initial t0" gen acts] by (simp add: initial_def)

theorem never_verified_witness:
  "map verified (users (run tally_gen sample_run (initial 0))) = [False, False]"
  using never_verified [of tally_gen sample_run 0] by (simp add: sample_run_users)


section \<open>The sweep changes nothing\<close>

text \<open>
  Claim C8: for every world and every number of hours, the sweep leaves the world as it
  found it, so a second sweep (with any hours) leaves what the first left, and the cron
  endpoint leaves the world as it found it.
\<close>

theorem sweep_identity:
  "snd (disableUnverifiedOlderThan UserRepoSQL hours w) = w \<and>
   snd (disableUnverifiedOlderThan UserRepoSQL hours2
          (snd (disableUnverifiedOlderThan UserRepoSQL hours w)))
     = snd (disableUnverifiedOlderThan UserRepoSQL hours w) \<and>
   snd (cleanupUnverified w) = w \<and>
   snd (cleanupUnverified (snd (cleanupUnverified w))) = snd (cleanupUnverified w)"
  by (simp add: UserRepoSQL_def update_unverified_noop cleanupUnverified_noop)

theorem sweep_identity_witness:
  "snd (disableUnverifiedOlderThan UserRepoSQL 24 sweep_world) = sweep_world \<and>
   snd (disableUnverifiedOlderThan UserRepoSQL 1
          (snd (disableUnverifiedOlderThan UserRepoSQL 24 sweep_world))) = sweep_world \<and>
   length (rows_matched 24 sweep_world) = 1"
proof -
  have matched: "length (rows_matched 24 sweep_world) = 1"
    by (simp add: rows_matched_def sweep_where_def sweep_world_def)
  from sweep_identity [of 24 sweep_world 1] sweep_identity [of 1 sweep_world 24] matched
  show ?thesis
    by simp
qed


section \<open>The count the sweep returns\<close>





section \<open>Refused registrations leave no trace\<close>

text \<open>
  Claim C10, on the deployed wiring: when \<^verbatim>\<open>exec\<close> throws \<^verbatim>\<open>INVALID_EMAIL\<close> or
  \<^verbatim>\<open>EMAIL_TAKEN\<close>, the world is the one before the call (the table, the mail log, the
  topic and the generator are untouched), and the handler throws the same error having
  called no port (\<^verbatim>\<open>INVALID_EMAIL\<close>) or \<^verbatim>\<open>findByEmail\<close> alone (\<^verbatim>\<open>EMAIL_TAKEN\<close>): neither
  \<^verbatim>\<open>create\<close> nor \<^verbatim>\<open>sendWelcome\<close> nor \<^verbatim>\<open>publish\<close> is called.
\<close>

theorem register_errors_atomic:
  assumes "fst (exec (wired gen) req w) = Inl (Error tag)"
    and "tag = ''INVALID_EMAIL'' \<or> tag = ''EMAIL_TAKEN''"
  shows "snd (exec (wired gen) req w) = w \<and>
         register gen req w = (Inl (Error tag), w) \<and>
         register_handler (spy (wired gen)) (spy_topic signups) req (w, t) =
           (Inl (Error tag),
            (w, t @ (if tag = ''INVALID_EMAIL'' then []
                     else [FindByEmail (toLowerCase (trim (email req)))])))"
proof -
  let ?e = "toLowerCase (trim (email req))"
  have cases: "(tag = ''INVALID_EMAIL'' \<and> \<not> matches EMAIL_RE ?e) \<or>
               (tag = ''EMAIL_TAKEN'' \<and> matches EMAIL_RE ?e \<and> \<not> has_nul ?e \<and>
                (\<exists>r \<in> set (users w). email r = ?e))"
    using assms(1) by (simp add: exec_wired Let_def split: if_splits)
  then show ?thesis
  proof
    assume invalid: "tag = ''INVALID_EMAIL'' \<and> \<not> matches EMAIL_RE ?e"
    then have plain: "exec (wired gen) req w = (Inl (Error tag), w)"
      by (simp add: exec_def)
    from invalid have "exec (spy (wired gen)) req (w, t) = (Inl (Error tag), (w, t))"
      by (simp add: exec_spy)
    with plain show ?thesis
      using invalid by (simp add: register_def register_handler_def register_handler_spy)
  next
    assume taken: "tag = ''EMAIL_TAKEN'' \<and> matches EMAIL_RE ?e \<and> \<not> has_nul ?e \<and>
                   (\<exists>r \<in> set (users w). email r = ?e)"
    then obtain row where "find (\<lambda>r. email r = ?e) (users w) = Some row"
      by (cases "find (\<lambda>r. email r = ?e) (users w)") (auto simp: find_None_iff)
    with taken have found: "findByEmail (repo (wired gen)) ?e w =
        (Inr (Some \<lparr>email = email row, name = name row, id' = id' row,
                     verified = verified row\<rparr>), w)"
      by (simp add: wired_def UserRepoSQL_def select_by_email_def)
    have plain: "exec (wired gen) req w = (Inl (Error tag), w)"
      using taken found by (simp add: exec_def)
    have "exec (spy (wired gen)) req (w, t) = (Inl (Error tag), (w, t @ [FindByEmail ?e]))"
      using taken found by (simp add: exec_spy)
    with plain show ?thesis
      using taken by (simp add: register_def register_handler_def register_handler_spy)
  qed
qed

text \<open>Alice's address again, in other letters and with blanks around it.\<close>

theorem register_errors_atomic_witness:
  "fst (exec (wired const_gen) \<lparr>email = '' A@b.COM '', name = None\<rparr> alice_world)
     = Inl (Error ''EMAIL_TAKEN'') \<and>
   snd (exec (wired const_gen) \<lparr>email = '' A@b.COM '', name = None\<rparr> alice_world)
     = alice_world \<and>
   register const_gen \<lparr>email = '' A@b.COM '', name = None\<rparr> alice_world
     = (Inl (Error ''EMAIL_TAKEN''), alice_world) \<and>
   register_handler (spy (wired const_gen)) (spy_topic signups)
       \<lparr>email = '' A@b.COM '', name = None\<rparr> (alice_world, [])
     = (Inl (Error ''EMAIL_TAKEN''), (alice_world, [FindByEmail ''a@b.com'']))"
proof -
  have n: "toLowerCase (trim '' A@b.COM '') = ''a@b.com''"
    by code_simp
  have thrown: "fst (exec (wired const_gen) \<lparr>email = '' A@b.COM '', name = None\<rparr> alice_world)
                  = Inl (Error ''EMAIL_TAKEN'')"
    by (simp add: exec_wired Let_def n EMAIL_RE_def alice_world_eq text_defs)
  from register_errors_atomic [OF thrown, of "[]"] thrown show ?thesis
    by (simp add: n)
qed


end
